theory Spec2Isabelle
  imports Main
begin

section \<open>The thread pool of ago.c\<close>

text \<open>
  The program is one C file: a pool of worker threads that sleep on a counting
  semaphore, a stack of pending (function, argument) pairs, and a counter of
  running functions with a condition variable. Its state is a set of global
  variables; the four entry points \<open>alib_thread_init\<close>, \<open>alib_go\<close>,
  \<open>alib_thread_wait\<close> and \<open>alib_thread_end\<close> and the worker body
  \<open>thread_idle\<close> read and write them.

  The embedding keeps the globals in one record and passes it explicitly. C \<open>int\<close>s are
  \<open>int\<close> (no counter comes near the machine bound in what is proved), pointers are
  addresses, and an array is a map from indices to values whose valid indices are
  \<open>0 .. MAX_THREADS - 1\<close>; an access outside that range is the outcome
  \<open>OutOfBounds\<close>. Every call into the operating system that the code tests
  (\<open>if(sem_init(...))\<close>) takes its return code from a record \<open>os\<close>, so that each
  failure branch of the source is a branch of the model. Locking and unlocking a mutex
  has no effect on what a single call computes and is not represented.
\<close>

subsection \<open>Globals\<close>

type_synonym fptr = nat
type_synonym ptr = nat
type_synonym tid = nat

definition MAX_THREADS :: int where
  "MAX_THREADS = 1024"

text \<open>Where a worker stands inside \<open>thread_idle\<close> (lines 77-110).\<close>

datatype wpc =
    AtSemWait
  | AtQuitCheck
  | AtClaim
  | AtRun fptr ptr
  | AtFinish
  | Exited

text \<open>Where the thread that called \<open>alib_thread_wait\<close> stands (lines 164-171).\<close>

datatype wait_pc = NotWaiting | InCondWait | Signalled

text \<open>
  What a call can end in other than a return: an access outside an array, and (for a
  call that blocks) never returning.
\<close>

datatype fault = OutOfBounds | NeverReturns

text \<open>
  The fields \<open>nthreads\<close> to \<open>nrunning\<close> are the C globals of lines 43-66 (the unused
  \<open>free_thread\<close> and \<open>nfree_thread\<close> are left out). The synchronisation objects are
  represented by what the claims need of them: the semaphore by its counter
  (\<open>None\<close> when it has not been created or has been destroyed), each mutex and the
  condition variable by whether it currently exists. \<open>threads\<close> is the table of threads
  started by \<open>pthread_create\<close>, a thread's handle being its index; \<open>waiter\<close> is the
  thread calling \<open>alib_thread_wait\<close>.
\<close>

record pool =
  nthreads :: int
  alib_thread_quit :: int
  thread_list :: "int \<Rightarrow> tid option"
  func_list :: "int \<Rightarrow> fptr"
  arg_list :: "int \<Rightarrow> ptr"
  nfuncs :: int
  nrunning :: int
  sem :: "nat option"
  func_mutex :: bool
  nrunning_mutex :: bool
  idle_condition :: bool
  threads :: "wpc list"
  waiter :: wait_pc

text \<open>The state at program start: every global is zero, nothing has been created.\<close>

definition initial_state :: pool where
  "initial_state =
     \<lparr>nthreads = 0, alib_thread_quit = 0, thread_list = (\<lambda>i. None),
      func_list = (\<lambda>i. 0), arg_list = (\<lambda>i. 0), nfuncs = 0, nrunning = 0,
      sem = None, func_mutex = False, nrunning_mutex = False, idle_condition = False,
      threads = [], waiter = NotWaiting\<rparr>"

text \<open>
  Return codes of the operating-system calls made during one call of an entry point.
  A code other than 0 is a failure, as the source tests it. Calls made in a loop are
  indexed by the loop counter; \<open>sem_getvalue\<close> by the number of the poll.
\<close>

record os =
  sem_init_rc :: int
  func_mutex_init_rc :: int
  nrunning_mutex_init_rc :: int
  cond_init_rc :: int
  pthread_create_rc :: "int \<Rightarrow> int"
  sem_getvalue_rc :: "nat \<Rightarrow> int"
  sem_post_rc :: "int \<Rightarrow> int"
  pthread_join_rc :: "int \<Rightarrow> int"
  sem_destroy_rc :: int
  nrunning_mutex_destroy_rc :: int
  cond_destroy_rc :: int

definition os_ok :: os where
  "os_ok =
     \<lparr>sem_init_rc = 0, func_mutex_init_rc = 0, nrunning_mutex_init_rc = 0,
      cond_init_rc = 0, pthread_create_rc = (\<lambda>i. 0), sem_getvalue_rc = (\<lambda>k. 0),
      sem_post_rc = (\<lambda>i. 0), pthread_join_rc = (\<lambda>i. 0), sem_destroy_rc = 0,
      nrunning_mutex_destroy_rc = 0, cond_destroy_rc = 0\<rparr>"

subsection \<open>Semaphore and condition variable\<close>

text \<open>A successful \<open>sem_post\<close> adds one to the counter.\<close>

definition sem_post :: "pool \<Rightarrow> pool" where
  "sem_post s = s\<lparr>sem := map_option Suc (sem s)\<rparr>"

text \<open>The value \<open>sem_getvalue\<close> stores in \<open>sval\<close>.\<close>

definition sem_getvalue :: "pool \<Rightarrow> int" where
  "sem_getvalue s = (case sem s of None \<Rightarrow> 0 | Some n \<Rightarrow> int n)"

text \<open>
  \<open>pthread_cond_signal\<close> releases a thread blocked in \<open>pthread_cond_wait\<close>; with no
  thread blocked it has no effect (the signal is not remembered).
\<close>

definition pthread_cond_signal :: "pool \<Rightarrow> pool" where
  "pthread_cond_signal s = (if waiter s = InCondWait then s\<lparr>waiter := Signalled\<rparr> else s)"

subsection \<open>alib\_thread\_init (lines 122-161)\<close>

text \<open>
  The loop of lines 143-150. The slot \<open>thread_list + i\<close> is handed to
  \<open>pthread_create\<close> for it to write the new handle there; for \<open>i\<close> outside the array
  that is an access out of bounds, whatever the call then returns. Each successful
  \<open>pthread_create\<close> stores the new handle in \<open>thread_list[i]\<close>, starts a thread at
  the top of \<open>thread_idle\<close> (its first statement is the \<open>sem_wait\<close>) and counts it.
  The result is \<open>Some rc\<close> when the loop returns \<open>rc\<close> from the function, \<open>None\<close>
  when it runs to its end.
\<close>

function spawn_loop :: "os \<Rightarrow> int \<Rightarrow> int \<Rightarrow> pool \<Rightarrow> fault + (int option \<times> pool)" where
  "spawn_loop os i max_conc s =
     (if i < max_conc then
        (if i < 0 \<or> MAX_THREADS \<le> i then Inl OutOfBounds
         else if pthread_create_rc os i \<noteq> 0 then Inr (Some (- 6), s)
         else spawn_loop os (i + 1) max_conc
                (s\<lparr>thread_list := (thread_list s)(i := Some (length (threads s))),
                   threads := threads s @ [AtSemWait],
                   nthreads := nthreads s + 1\<rparr>))
      else Inr (None, s))"
  by pat_completeness auto
termination
  by (relation "measure (\<lambda>(os, i, max_conc, s). nat (max_conc - i))") auto

declare spawn_loop.simps [simp del]

text \<open>
  The loop of lines 154-158. Nothing in the loop body changes the state, so when the
  semaphore's value is positive the loop polls again; not returning is \<open>None\<close>.
\<close>

partial_function (option) poll_loop :: "os \<Rightarrow> nat \<Rightarrow> pool \<Rightarrow> (int \<times> pool) option" where
  "poll_loop os k s =
     (if sem_getvalue_rc os k \<noteq> 0 then Some (- 7, s)
      else if sem_getvalue s \<le> 0 then Some (0, s)
      else poll_loop os (Suc k) s)"

declare poll_loop.simps [code]

definition alib_thread_init :: "os \<Rightarrow> int \<Rightarrow> pool \<Rightarrow> (fault + int \<times> pool) option" where
  "alib_thread_init os max_conc s0 =
     (let s1 = s0\<lparr>alib_thread_quit := 0\<rparr> in
      if nthreads s1 \<noteq> 0 then Some (Inr (- 1, s1))
      else if sem_init_rc os \<noteq> 0 then Some (Inr (- 1, s1))
      else if func_mutex_init_rc os \<noteq> 0 then Some (Inr (- 3, s1\<lparr>sem := Some 0\<rparr>))
      else if nrunning_mutex_init_rc os \<noteq> 0
        then Some (Inr (- 4, s1\<lparr>sem := Some 0, func_mutex := True\<rparr>))
      else if cond_init_rc os \<noteq> 0
        then Some (Inr (- 5, s1\<lparr>sem := Some 0, func_mutex := True, nrunning_mutex := True\<rparr>))
      else
        (case spawn_loop os 0 max_conc
                (s1\<lparr>sem := Some 0, func_mutex := True, nrunning_mutex := True,
                    idle_condition := True\<rparr>) of
           Inl f \<Rightarrow> Some (Inl f)
         | Inr (Some rc, s2) \<Rightarrow> Some (Inr (rc, s2))
         | Inr (None, s2) \<Rightarrow> map_option Inr (poll_loop os 0 s2)))"

subsection \<open>alib\_go (lines 209-237)\<close>

definition alib_go :: "os \<Rightarrow> fptr \<Rightarrow> ptr \<Rightarrow> pool \<Rightarrow> fault + int \<times> pool" where
  "alib_go os func arg s =
     (if nthreads s = 0 then Inr (1, s)
      else if nfuncs s = MAX_THREADS then Inr (2, s)
      else if nfuncs s < 0 \<or> MAX_THREADS \<le> nfuncs s then Inl OutOfBounds
      else
        (let s1 = s\<lparr>func_list := (func_list s)(nfuncs s := func),
                     arg_list := (arg_list s)(nfuncs s := arg),
                     nfuncs := nfuncs s + 1\<rparr>;
             s2 = s1\<lparr>nrunning := nrunning s1 + 1\<rparr>
         in if sem_post_rc os 0 \<noteq> 0 then Inr (3, s2) else Inr (0, sem_post s2)))"

text \<open>
  The same function in two parts. The tests of lines 211-215 are made before any lock
  is taken; \<open>None\<close>: both are passed. Lines 217-236 are what a caller that has passed
  them goes on to do, in the state it then finds.
\<close>

definition alib_go_test :: "pool \<Rightarrow> int option" where
  "alib_go_test s =
     (if nthreads s = 0 then Some 1 else if nfuncs s = MAX_THREADS then Some 2 else None)"

definition alib_go_push :: "os \<Rightarrow> fptr \<Rightarrow> ptr \<Rightarrow> pool \<Rightarrow> fault + int \<times> pool" where
  "alib_go_push os func arg s =
     (if nfuncs s < 0 \<or> MAX_THREADS \<le> nfuncs s then Inl OutOfBounds
      else
        (let s1 = s\<lparr>func_list := (func_list s)(nfuncs s := func),
                     arg_list := (arg_list s)(nfuncs s := arg),
                     nfuncs := nfuncs s + 1\<rparr>;
             s2 = s1\<lparr>nrunning := nrunning s1 + 1\<rparr>
         in if sem_post_rc os 0 \<noteq> 0 then Inr (3, s2) else Inr (0, sem_post s2)))"

subsection \<open>thread\_idle (lines 77-110)\<close>

text \<open>
  One atomic step of worker \<open>t\<close>. \<open>None\<close>: the worker cannot move (it is blocked in
  \<open>sem_wait\<close> on a semaphore without units, or it has returned). The submitted
  function is opaque; its call (line 101) is a step that leaves the pool's state
  alone.
\<close>

definition thread_idle_step :: "pool \<Rightarrow> nat \<Rightarrow> (fault + pool) option" where
  "thread_idle_step s t =
     (if length (threads s) \<le> t then None
      else
        (case threads s ! t of
           AtSemWait \<Rightarrow>
             (case sem s of
                None \<Rightarrow> None
              | Some n \<Rightarrow>
                  (if n = 0 then None
                   else Some (Inr (s\<lparr>sem := Some (n - 1),
                                      threads := (threads s)[t := AtQuitCheck]\<rparr>))))
         | AtQuitCheck \<Rightarrow>
             Some (Inr (s\<lparr>threads := (threads s)
                            [t := (if alib_thread_quit s \<noteq> 0 then Exited else AtClaim)]\<rparr>))
         | AtClaim \<Rightarrow>
             (let n = nfuncs s - 1 in
              if n < 0 \<or> MAX_THREADS \<le> n then Some (Inl OutOfBounds)
              else Some (Inr (s\<lparr>nfuncs := n,
                                 threads := (threads s)
                                   [t := AtRun (func_list s n) (arg_list s n)]\<rparr>)))
         | AtRun f a \<Rightarrow> Some (Inr (s\<lparr>threads := (threads s)[t := AtFinish]\<rparr>))
         | AtFinish \<Rightarrow>
             (let s1 = s\<lparr>nrunning := nrunning s - 1\<rparr>;
                  s2 = (if nrunning s1 = 0 then pthread_cond_signal s1 else s1)
              in Some (Inr (s2\<lparr>threads := (threads s2)[t := AtSemWait]\<rparr>)))
         | Exited \<Rightarrow> None))"

subsection \<open>alib\_thread\_end (lines 179-203)\<close>

text \<open>The loop of lines 187-189.\<close>

function end_post_loop :: "os \<Rightarrow> int \<Rightarrow> pool \<Rightarrow> int option \<times> pool" where
  "end_post_loop os i s =
     (if i < nthreads s then
        (if sem_post_rc os i \<noteq> 0 then (Some 1, s)
         else end_post_loop os (i + 1) (sem_post s))
      else (None, s))"
  by pat_completeness auto
termination
  by (relation "measure (\<lambda>(os, i, s). nat (nthreads s - i))") (auto simp: sem_post_def)

declare end_post_loop.simps [simp del]

text \<open>
  How many steps a worker standing at a point of \<open>thread_idle\<close> takes at most before
  it returns, once \<open>alib_thread_quit\<close> is set.
\<close>

fun steps_to_exit :: "wpc \<Rightarrow> nat" where
  "steps_to_exit AtClaim = 5"
| "steps_to_exit (AtRun f a) = 4"
| "steps_to_exit AtFinish = 3"
| "steps_to_exit AtSemWait = 2"
| "steps_to_exit AtQuitCheck = 1"
| "steps_to_exit Exited = 0"

text \<open>
  \<open>pthread_join\<close> returns 0 only once the joined thread has returned from
  \<open>thread_idle\<close>. While \<open>alib_thread_end\<close> waits in the join the worker goes on from
  where it stands; \<open>run_worker k t\<close> lets worker \<open>t\<close> take up to \<open>k\<close> steps, stopping
  where it cannot move.
\<close>

fun run_worker :: "nat \<Rightarrow> nat \<Rightarrow> pool \<Rightarrow> fault + pool" where
  "run_worker 0 t s = Inr s"
| "run_worker (Suc k) t s =
     (case thread_idle_step s t of
        None \<Rightarrow> Inr s
      | Some (Inl f) \<Rightarrow> Inl f
      | Some (Inr s') \<Rightarrow> run_worker k t s')"

text \<open>
  With \<open>alib_thread_quit\<close> set, a worker returns within five steps (claim, call,
  finish, \<open>sem_wait\<close>, quit test) unless it blocks in \<open>sem_wait\<close>. A worker that has
  not returned by then does not return, and neither does the join. A handle that
  names no thread leaves the state as it is.
\<close>

definition thread_exit :: "tid option \<Rightarrow> pool \<Rightarrow> fault + pool" where
  "thread_exit h s =
     (case h of
        None \<Rightarrow> Inr s
      | Some t \<Rightarrow>
          (case run_worker 5 t s of
             Inl f \<Rightarrow> Inl f
           | Inr s' \<Rightarrow>
               (if t < length (threads s') \<and> threads s' ! t \<noteq> Exited then Inl NeverReturns
                else Inr s')))"

text \<open>The loop of lines 192-194.\<close>

function end_join_loop :: "os \<Rightarrow> int \<Rightarrow> pool \<Rightarrow> fault + (int option \<times> pool)" where
  "end_join_loop os i s =
     (if i < nthreads s then
        (if i < 0 \<or> MAX_THREADS \<le> i then Inl OutOfBounds
         else if pthread_join_rc os i \<noteq> 0 then Inr (Some 2, s)
         else
           (case thread_exit (thread_list s i) s of
              Inl f \<Rightarrow> Inl f
            | Inr s' \<Rightarrow> end_join_loop os (i + 1) s'))
      else Inr (None, s))"
  by pat_completeness auto
termination
proof (relation "measure (\<lambda>(os, i, s). nat (nthreads s - i))")
  show "wf (measure (\<lambda>(os, i, s). nat (nthreads s - i)))" by simp
next
  fix os :: os and i :: int and s s' :: pool
  assume lt: "i < nthreads s" and ex: "thread_exit (thread_list s i) s = Inr s'"
  have one: "nthreads v = nthreads u" if "thread_idle_step u t = Some (Inr v)" for u v t
    using that
    by (auto simp: thread_idle_step_def Let_def pthread_cond_signal_def
        split: if_splits wpc.splits option.splits)
  have run: "nthreads v = nthreads u" if "run_worker k t u = Inr v" for k t u v
    using that
  proof (induction k arbitrary: u)
    case 0
    then show ?case by simp
  next
    case (Suc k)
    then show ?case
      by (auto dest: one split: option.splits sum.splits)
  qed
  from ex have "nthreads s' = nthreads s"
    by (auto simp: thread_exit_def dest: run split: option.splits sum.splits if_splits)
  with lt show "((os, i + 1, s'), (os, i, s)) \<in> measure (\<lambda>(os, i, s). nat (nthreads s - i))"
    by simp
qed

declare end_join_loop.simps [simp del]

definition alib_thread_end :: "os \<Rightarrow> pool \<Rightarrow> fault + int \<times> pool" where
  "alib_thread_end os s0 =
     (case end_post_loop os 0 (s0\<lparr>alib_thread_quit := 1\<rparr>) of
        (Some rc, s2) \<Rightarrow> Inr (rc, s2)
      | (None, s2) \<Rightarrow>
          (case end_join_loop os 0 s2 of
             Inl f \<Rightarrow> Inl f
           | Inr (Some rc, s3) \<Rightarrow> Inr (rc, s3)
           | Inr (None, s3) \<Rightarrow>
               (let s4 = s3\<lparr>nrunning := 0\<rparr> in
                if sem_destroy_rc os \<noteq> 0 then Inr (3, s4)
                else if nrunning_mutex_destroy_rc os \<noteq> 0 then Inr (4, s4\<lparr>sem := None\<rparr>)
                else if cond_destroy_rc os \<noteq> 0
                  then Inr (5, s4\<lparr>sem := None, nrunning_mutex := False\<rparr>)
                else Inr (0, s4\<lparr>sem := None, nrunning_mutex := False,
                               idle_condition := False\<rparr>))))"

subsection \<open>alib\_thread\_wait (lines 164-171)\<close>

text \<open>
  The function takes \<open>nrunning_mutex\<close> and calls \<open>pthread_cond_wait\<close> at once: no
  test of \<open>nrunning\<close> comes before it. The call is therefore two moves of the caller:
  it blocks on the condition variable, and it returns 0 once a signal has released it.
  (POSIX lets \<open>pthread_cond_wait\<close> wake without a signal but promises no such
  wake-up; the runs described here are those without one.)
\<close>

definition alib_thread_wait_call :: "pool \<Rightarrow> pool" where
  "alib_thread_wait_call s = s\<lparr>waiter := InCondWait\<rparr>"

definition alib_thread_wait_return :: "pool \<Rightarrow> (int \<times> pool) option" where
  "alib_thread_wait_return s =
     (if waiter s = Signalled then Some (0, s\<lparr>waiter := NotWaiting\<rparr>) else None)"

text \<open>What can happen while the caller is blocked: some worker takes a step.\<close>

inductive step :: "pool \<Rightarrow> pool \<Rightarrow> bool" where
  worker: "thread_idle_step s t = Some (Inr s') \<Longrightarrow> step s s'"

text \<open>
  \<open>alib_thread_wait s r\<close>: the function, called in state \<open>s\<close>, returns \<open>r\<close>. After the
  caller has blocked, some run of the workers leads to a state in which it has been
  released. When no \<open>r\<close> is related to \<open>s\<close> the call never returns.
\<close>

inductive alib_thread_wait :: "pool \<Rightarrow> int \<times> pool \<Rightarrow> bool" where
  returns: "step\<^sup>*\<^sup>* (alib_thread_wait_call s) s' \<Longrightarrow> alib_thread_wait_return s' = Some r
              \<Longrightarrow> alib_thread_wait s r"

subsection \<open>States the pool can reach when calls are serialised\<close>

text \<open>
  The states reached from program start when the calls of the entry points do not
  overlap: each call that returns is one move, from its first statement to its return,
  and the workers take their steps between the calls (and, inside
  \<open>alib_thread_end\<close>, while it waits in a join). Two calls of \<open>alib_go\<close> of which
  one starts before the other has returned are not among these runs; the function's
  tests are made outside the lock (\<open>alib_go_test\<close>), so such calls can do what no
  run described here does.
\<close>

inductive serially_reachable :: "pool \<Rightarrow> bool" where
  start: "serially_reachable initial_state"
| init: "serially_reachable s \<Longrightarrow> alib_thread_init os max_conc s = Some (Inr (rc, s'))
           \<Longrightarrow> serially_reachable s'"
| go: "serially_reachable s \<Longrightarrow> alib_go os func arg s = Inr (rc, s') \<Longrightarrow> serially_reachable s'"
| finish: "serially_reachable s \<Longrightarrow> alib_thread_end os s = Inr (rc, s') \<Longrightarrow> serially_reachable s'"
| work: "serially_reachable s \<Longrightarrow> thread_idle_step s t = Some (Inr s') \<Longrightarrow> serially_reachable s'"

subsection \<open>Concrete states\<close>

text \<open>After \<open>alib_thread_init(1)\<close> at program start, every operating-system call succeeding.\<close>

definition pool_init1 :: pool where
  "pool_init1 =
     \<lparr>nthreads = 1, alib_thread_quit = 0, thread_list = (\<lambda>i. None)(0 := Some 0),
      func_list = (\<lambda>i. 0), arg_list = (\<lambda>i. 0), nfuncs = 0, nrunning = 0,
      sem = Some 0, func_mutex = True, nrunning_mutex = True, idle_condition = True,
      threads = [AtSemWait], waiter = NotWaiting\<rparr>"

text \<open>After one and after two calls \<open>alib_go(5, 6)\<close> in that state, no worker having moved.\<close>

definition pool_go1 :: pool where
  "pool_go1 =
     \<lparr>nthreads = 1, alib_thread_quit = 0, thread_list = (\<lambda>i. None)(0 := Some 0),
      func_list = (\<lambda>i. 0)(0 := 5), arg_list = (\<lambda>i. 0)(0 := 6), nfuncs = 1, nrunning = 1,
      sem = Some 1, func_mutex = True, nrunning_mutex = True, idle_condition = True,
      threads = [AtSemWait], waiter = NotWaiting\<rparr>"

definition pool_go2 :: pool where
  "pool_go2 =
     \<lparr>nthreads = 1, alib_thread_quit = 0, thread_list = (\<lambda>i. None)(0 := Some 0),
      func_list = (\<lambda>i. 0)(0 := 5, 1 := 5), arg_list = (\<lambda>i. 0)(0 := 6, 1 := 6),
      nfuncs = 2, nrunning = 2,
      sem = Some 2, func_mutex = True, nrunning_mutex = True, idle_condition = True,
      threads = [AtSemWait], waiter = NotWaiting\<rparr>"

text \<open>After \<open>k\<close> calls \<open>alib_go(5, 6)\<close> in \<open>pool_init1\<close>, no worker having moved.\<close>

definition pool_pending :: "nat \<Rightarrow> pool" where
  "pool_pending k =
     \<lparr>nthreads = 1, alib_thread_quit = 0, thread_list = (\<lambda>i. None)(0 := Some 0),
      func_list = (\<lambda>i. if 0 \<le> i \<and> i < int k then 5 else 0),
      arg_list = (\<lambda>i. if 0 \<le> i \<and> i < int k then 6 else 0),
      nfuncs = int k, nrunning = int k,
      sem = Some k, func_mutex = True, nrunning_mutex = True, idle_condition = True,
      threads = [AtSemWait], waiter = NotWaiting\<rparr>"

text \<open>After \<open>alib_thread_end()\<close> in \<open>pool_init1\<close>, every operating-system call succeeding.\<close>

definition pool_end1 :: pool where
  "pool_end1 =
     \<lparr>nthreads = 1, alib_thread_quit = 1, thread_list = (\<lambda>i. None)(0 := Some 0),
      func_list = (\<lambda>i. 0), arg_list = (\<lambda>i. 0), nfuncs = 0, nrunning = 0,
      sem = None, func_mutex = True, nrunning_mutex = False, idle_condition = False,
      threads = [Exited], waiter = NotWaiting\<rparr>"

section \<open>The workers\<close>

lemma thread_idle_step_nfuncs:
  "thread_idle_step s t = Some (Inr s') \<Longrightarrow> nfuncs s' \<le> nfuncs s"
  by (auto simp: thread_idle_step_def Let_def pthread_cond_signal_def
      split: if_splits wpc.splits option.splits)

lemma thread_idle_step_nrunning:
  "thread_idle_step s t = Some (Inr s') \<Longrightarrow> nrunning s' \<le> nrunning s"
  by (auto simp: thread_idle_step_def Let_def pthread_cond_signal_def
      split: if_splits wpc.splits option.splits)

text \<open>A step of a worker leaves these globals alone, and never adds a pending entry.\<close>

lemma thread_idle_step_frame:
  "thread_idle_step s t = Some (Inr s') \<Longrightarrow>
   nthreads s' = nthreads s \<and> alib_thread_quit s' = alib_thread_quit s \<and>
   thread_list s' = thread_list s \<and> func_list s' = func_list s \<and>
   arg_list s' = arg_list s \<and> func_mutex s' = func_mutex s \<and>
   nrunning_mutex s' = nrunning_mutex s \<and> idle_condition s' = idle_condition s \<and>
   nfuncs s' \<le> nfuncs s"
  by (auto simp: thread_idle_step_def Let_def pthread_cond_signal_def
      split: if_splits wpc.splits option.splits)

lemma run_worker_frame:
  "run_worker k t s = Inr s' \<Longrightarrow>
   nthreads s' = nthreads s \<and> alib_thread_quit s' = alib_thread_quit s \<and>
   thread_list s' = thread_list s \<and> func_list s' = func_list s \<and>
   arg_list s' = arg_list s \<and> func_mutex s' = func_mutex s \<and>
   nrunning_mutex s' = nrunning_mutex s \<and> idle_condition s' = idle_condition s \<and>
   nfuncs s' \<le> nfuncs s"
proof (induction k arbitrary: s)
  case 0
  then show ?case by simp
next
  case (Suc k)
  show ?case
  proof (cases "thread_idle_step s t")
    case None
    with Suc.prems show ?thesis by simp
  next
    case (Some r)
    show ?thesis
    proof (cases r)
      case (Inl f)
      with Some Suc.prems show ?thesis by simp
    next
      case (Inr u)
      with Some Suc.prems have "run_worker k t u = Inr s'" by simp
      from Suc.IH [OF this] thread_idle_step_frame [of s t u] Some Inr
      show ?thesis by simp
    qed
  qed
qed

lemma thread_exit_frame:
  "thread_exit h s = Inr s' \<Longrightarrow>
   nthreads s' = nthreads s \<and> alib_thread_quit s' = alib_thread_quit s \<and>
   thread_list s' = thread_list s \<and> func_list s' = func_list s \<and>
   arg_list s' = arg_list s \<and> func_mutex s' = func_mutex s \<and>
   nrunning_mutex s' = nrunning_mutex s \<and> idle_condition s' = idle_condition s \<and>
   nfuncs s' \<le> nfuncs s"
proof (cases h)
  case None
  then show "thread_exit h s = Inr s' \<Longrightarrow> ?thesis" by (simp add: thread_exit_def)
next
  case (Some t)
  assume "thread_exit h s = Inr s'"
  with Some have "run_worker 5 t s = Inr s'"
    by (auto simp: thread_exit_def split: sum.splits if_splits)
  then show ?thesis by (rule run_worker_frame)
qed

text \<open>
  Five steps are enough: with the quit flag set, a worker that has not returned after
  them cannot move at all, so it is blocked in \<open>sem_wait\<close>.
\<close>

lemma thread_idle_step_steps_to_exit:
  assumes "alib_thread_quit s \<noteq> 0" and "thread_idle_step s t = Some (Inr s')"
  shows "alib_thread_quit s' \<noteq> 0 \<and> steps_to_exit (threads s' ! t) < steps_to_exit (threads s ! t)"
proof -
  from assms(2) have t: "t < length (threads s)"
    by (simp add: thread_idle_step_def split: if_splits)
  show ?thesis
  proof (cases "threads s ! t")
    case AtSemWait
    with assms t show ?thesis
      by (auto simp: thread_idle_step_def split: option.splits if_splits)
  next
    case AtQuitCheck
    with assms t show ?thesis by (auto simp: thread_idle_step_def)
  next
    case AtClaim
    with assms t show ?thesis
      by (auto simp: thread_idle_step_def Let_def split: if_splits)
  next
    case (AtRun f a)
    with assms t show ?thesis by (auto simp: thread_idle_step_def)
  next
    case AtFinish
    with assms t show ?thesis
      by (auto simp: thread_idle_step_def Let_def pthread_cond_signal_def split: if_splits)
  next
    case Exited
    with assms t show ?thesis by (simp add: thread_idle_step_def)
  qed
qed

lemma run_worker_runs_out:
  "alib_thread_quit s \<noteq> 0 \<Longrightarrow> steps_to_exit (threads s ! t) \<le> k \<Longrightarrow>
   run_worker k t s = Inr s' \<Longrightarrow> thread_idle_step s' t = None"
proof (induction k arbitrary: s)
  case 0
  then have "threads s ! t = Exited" by (cases "threads s ! t") simp_all
  with 0 show ?case by (simp add: thread_idle_step_def)
next
  case (Suc k)
  show ?case
  proof (cases "thread_idle_step s t")
    case None
    with Suc.prems show ?thesis by simp
  next
    case (Some r)
    show ?thesis
    proof (cases r)
      case (Inl f)
      with Some Suc.prems show ?thesis by simp
    next
      case (Inr u)
      with Some Suc.prems have run: "run_worker k t u = Inr s'" by simp
      from Some Inr have "thread_idle_step s t = Some (Inr u)" by simp
      from thread_idle_step_steps_to_exit [OF Suc.prems(1) this] Suc.prems(2)
      have "alib_thread_quit u \<noteq> 0" "steps_to_exit (threads u ! t) \<le> k" by simp_all
      then show ?thesis using run by (rule Suc.IH)
    qed
  qed
qed

lemma run_worker_stuck:
  "alib_thread_quit s \<noteq> 0 \<Longrightarrow> run_worker 5 t s = Inr s' \<Longrightarrow> thread_idle_step s' t = None"
proof -
  have "steps_to_exit (threads s ! t) \<le> 5" by (cases "threads s ! t") simp_all
  then show "alib_thread_quit s \<noteq> 0 \<Longrightarrow> run_worker 5 t s = Inr s' \<Longrightarrow> ?thesis"
    by (rule run_worker_runs_out [rotated])
qed

text \<open>A worker in \<open>sem_wait\<close> on a semaphore without units cannot move.\<close>

lemma blocked_worker:
  "sem s = Some 0 \<Longrightarrow> threads s = replicate k AtSemWait \<Longrightarrow> thread_idle_step s t = None"
  by (simp add: thread_idle_step_def)

lemma no_step_rtranclp:
  assumes "step\<^sup>*\<^sup>* s s'" and "\<And>u. \<not> step s u"
  shows "s' = s"
  using assms by (induction rule: converse_rtranclp_induct) auto

text \<open>
  The signal does release the caller when it comes after the caller has blocked: with a
  worker about to finish the last running function, \<open>alib_thread_wait\<close> returns.
\<close>

lemma alib_thread_wait_released:
  assumes "t < length (threads s)" and "threads s ! t = AtFinish" and "nrunning s = 1"
  shows "\<exists>r. alib_thread_wait s r"
proof -
  let ?u = "s\<lparr>nrunning := 0, waiter := Signalled, threads := (threads s)[t := AtSemWait]\<rparr>"
  from assms have "thread_idle_step (alib_thread_wait_call s) t = Some (Inr ?u)"
    by (simp add: thread_idle_step_def alib_thread_wait_call_def pthread_cond_signal_def)
  then have "step\<^sup>*\<^sup>* (alib_thread_wait_call s) ?u"
    by (intro r_into_rtranclp step.worker)
  moreover have "alib_thread_wait_return ?u = Some (0, ?u\<lparr>waiter := NotWaiting\<rparr>)"
    by (simp add: alib_thread_wait_return_def)
  ultimately show ?thesis by (blast intro: alib_thread_wait.returns)
qed

section \<open>Properties of the loops\<close>

lemma poll_loop_zero:
  "sem_getvalue_rc os k = 0 \<Longrightarrow> sem s = Some 0 \<Longrightarrow> poll_loop os k s = Some (0, s)"
  by (subst poll_loop.simps) (simp add: sem_getvalue_def)

lemma poll_loop_fail:
  "sem_getvalue_rc os k \<noteq> 0 \<Longrightarrow> poll_loop os k s = Some (- 7, s)"
  by (subst poll_loop.simps) simp

lemma poll_loop_result:
  "poll_loop os k s = Some (rc, s') \<Longrightarrow> sem s = Some 0 \<Longrightarrow> s' = s \<and> (rc = 0 \<or> rc = - 7)"
  by (subst (asm) poll_loop.simps) (auto simp: sem_getvalue_def split: if_splits)

text \<open>The worker-creation loop writes \<open>thread_list\<close>, \<open>threads\<close> and \<open>nthreads\<close> only.\<close>

lemma spawn_loop_frame:
  "spawn_loop os i max_conc s = Inr (r, s') \<Longrightarrow>
   nfuncs s' = nfuncs s \<and> nrunning s' = nrunning s \<and> sem s' = sem s \<and>
   waiter s' = waiter s \<and> alib_thread_quit s' = alib_thread_quit s \<and>
   func_mutex s' = func_mutex s \<and> nrunning_mutex s' = nrunning_mutex s \<and>
   idle_condition s' = idle_condition s \<and> func_list s' = func_list s \<and>
   arg_list s' = arg_list s"
proof (induction os i max_conc s rule: spawn_loop.induct)
  case (1 os i max_conc s)
  show ?case
  proof (cases "i < max_conc \<and> \<not> (i < 0 \<or> MAX_THREADS \<le> i) \<and> pthread_create_rc os i = 0")
    case True
    with "1.prems" "1.IH" show ?thesis
      by (subst (asm) spawn_loop.simps) simp
  next
    case False
    with "1.prems" show ?thesis
      by (subst (asm) spawn_loop.simps) (auto split: if_splits)
  qed
qed

lemma spawn_loop_rc:
  "spawn_loop os i max_conc s = Inr (Some rc, s') \<Longrightarrow> rc = - 6"
proof (induction os i max_conc s rule: spawn_loop.induct)
  case (1 os i max_conc s)
  show ?case
  proof (cases "i < max_conc \<and> \<not> (i < 0 \<or> MAX_THREADS \<le> i) \<and> pthread_create_rc os i = 0")
    case True
    with "1.prems" "1.IH" show ?thesis
      by (subst (asm) spawn_loop.simps) simp
  next
    case False
    with "1.prems" show ?thesis
      by (subst (asm) spawn_loop.simps) (auto split: if_splits)
  qed
qed

text \<open>A loop that runs to its end has created and counted \<open>max_conc - i\<close> workers.\<close>

lemma spawn_loop_count:
  "spawn_loop os i max_conc s = Inr (None, s') \<Longrightarrow>
   nthreads s' = nthreads s + max 0 (max_conc - i) \<and>
   threads s' = threads s @ replicate (nat (max_conc - i)) AtSemWait"
proof (induction os i max_conc s rule: spawn_loop.induct)
  case (1 os i max_conc s)
  show ?case
  proof (cases "i < max_conc \<and> \<not> (i < 0 \<or> MAX_THREADS \<le> i) \<and> pthread_create_rc os i = 0")
    case True
    then have n: "nat (max_conc - i) = Suc (nat (max_conc - (i + 1)))" by linarith
    from True "1.prems" "1.IH" show ?thesis
      by (subst (asm) spawn_loop.simps) (simp add: n replicate_append_same)
  next
    case False
    with "1.prems" show ?thesis
      by (subst (asm) spawn_loop.simps) (auto split: if_splits)
  qed
qed

lemma spawn_loop_threads:
  "spawn_loop os i max_conc s = Inr (r, s') \<Longrightarrow>
   \<exists>k. threads s' = threads s @ replicate k AtSemWait"
proof (induction os i max_conc s rule: spawn_loop.induct)
  case (1 os i max_conc s)
  show ?case
  proof (cases "i < max_conc \<and> \<not> (i < 0 \<or> MAX_THREADS \<le> i) \<and> pthread_create_rc os i = 0")
    case True
    with "1.prems" "1.IH" obtain k where
      "threads s' = (threads s @ [AtSemWait]) @ replicate k AtSemWait"
      by (subst (asm) spawn_loop.simps) auto
    then have "threads s' = threads s @ replicate (Suc k) AtSemWait" by simp
    then show ?thesis by blast
  next
    case False
    with "1.prems" have "threads s' = threads s @ replicate 0 AtSemWait"
      by (subst (asm) spawn_loop.simps) (auto split: if_splits)
    then show ?thesis by blast
  qed
qed

text \<open>
  With more workers asked for than \<open>thread_list\<close> has slots, and every creation up to
  the last slot succeeding, the loop reaches index \<open>MAX_THREADS\<close>.
\<close>

lemma spawn_loop_overflow:
  "MAX_THREADS < max_conc \<Longrightarrow> 0 \<le> i \<Longrightarrow> i \<le> MAX_THREADS \<Longrightarrow>
   (\<And>j. 0 \<le> j \<Longrightarrow> j < MAX_THREADS \<Longrightarrow> pthread_create_rc os j = 0) \<Longrightarrow>
   spawn_loop os i max_conc s = Inl OutOfBounds"
proof (induction os i max_conc s rule: spawn_loop.induct)
  case (1 os i max_conc s)
  show ?case
  proof (cases "i = MAX_THREADS")
    case True
    with "1.prems" show ?thesis
      by (subst spawn_loop.simps) simp
  next
    case False
    with "1.prems" have a: "i < max_conc" "\<not> (i < 0 \<or> MAX_THREADS \<le> i)"
      "\<not> pthread_create_rc os i \<noteq> 0"
      by auto
    have "spawn_loop os (i + 1) max_conc
           (s\<lparr>thread_list := (thread_list s)(i := Some (length (threads s))),
              threads := threads s @ [AtSemWait], nthreads := nthreads s + 1\<rparr>) = Inl OutOfBounds"
      using a "1.prems" False by (intro "1.IH") auto
    with a show ?thesis
      by (subst spawn_loop.simps) simp
  qed
qed

lemma spawn_loop_fault:
  "spawn_loop os i max_conc s = Inl f \<Longrightarrow> 0 \<le> i \<Longrightarrow>
   MAX_THREADS < max_conc \<and> (\<forall>j. i \<le> j \<and> j < MAX_THREADS \<longrightarrow> pthread_create_rc os j = 0)"
proof (induction os i max_conc s rule: spawn_loop.induct)
  case (1 os i max_conc s)
  show ?case
  proof (cases "i < max_conc \<and> \<not> (i < 0 \<or> MAX_THREADS \<le> i) \<and> pthread_create_rc os i = 0")
    case True
    with "1.prems" "1.IH"
    have "MAX_THREADS < max_conc \<and>
          (\<forall>j. i + 1 \<le> j \<and> j < MAX_THREADS \<longrightarrow> pthread_create_rc os j = 0)"
      by (subst (asm) spawn_loop.simps) simp
    moreover have "\<And>j. i \<le> j \<Longrightarrow> j = i \<or> i + 1 \<le> j" by linarith
    ultimately show ?thesis using True by blast
  next
    case False
    with "1.prems" show ?thesis
      by (subst (asm) spawn_loop.simps) (auto split: if_splits)
  qed
qed

text \<open>The loops of \<open>alib_thread_end\<close> change the semaphore and the thread table only.\<close>

lemma end_post_loop_frame:
  "end_post_loop os i s = (r, s') \<Longrightarrow>
   nthreads s' = nthreads s \<and> alib_thread_quit s' = alib_thread_quit s \<and>
   thread_list s' = thread_list s \<and> func_list s' = func_list s \<and>
   arg_list s' = arg_list s \<and> nfuncs s' = nfuncs s \<and> nrunning s' = nrunning s \<and>
   func_mutex s' = func_mutex s \<and> nrunning_mutex s' = nrunning_mutex s \<and>
   idle_condition s' = idle_condition s \<and> threads s' = threads s \<and> waiter s' = waiter s"
proof (induction os i s rule: end_post_loop.induct)
  case (1 os i s)
  show ?case
  proof (cases "i < nthreads s \<and> sem_post_rc os i = 0")
    case True
    with "1.prems" "1.IH" show ?thesis
      by (subst (asm) end_post_loop.simps) (simp add: sem_post_def)
  next
    case False
    with "1.prems" show ?thesis
      by (subst (asm) end_post_loop.simps) (auto split: if_splits)
  qed
qed

lemma end_join_loop_frame:
  "end_join_loop os i s = Inr (r, s') \<Longrightarrow>
   nthreads s' = nthreads s \<and> alib_thread_quit s' = alib_thread_quit s \<and>
   thread_list s' = thread_list s \<and> func_list s' = func_list s \<and>
   arg_list s' = arg_list s \<and> func_mutex s' = func_mutex s \<and>
   nrunning_mutex s' = nrunning_mutex s \<and> idle_condition s' = idle_condition s \<and>
   nfuncs s' \<le> nfuncs s"
proof (induction os i s rule: end_join_loop.induct)
  case (1 os i s)
  show ?case
  proof (cases "i < nthreads s \<and> \<not> (i < 0 \<or> MAX_THREADS \<le> i) \<and> pthread_join_rc os i = 0")
    case True
    with "1.prems" obtain u where u: "thread_exit (thread_list s i) s = Inr u"
      and l: "end_join_loop os (i + 1) u = Inr (r, s')"
      by (subst (asm) end_join_loop.simps) (auto split: sum.splits)
    from True u l have "nthreads s' = nthreads u \<and> alib_thread_quit s' = alib_thread_quit u \<and>
      thread_list s' = thread_list u \<and> func_list s' = func_list u \<and>
      arg_list s' = arg_list u \<and> func_mutex s' = func_mutex u \<and>
      nrunning_mutex s' = nrunning_mutex u \<and> idle_condition s' = idle_condition u \<and>
      nfuncs s' \<le> nfuncs u"
      by (intro "1.IH") auto
    with thread_exit_frame [OF u] show ?thesis by simp
  next
    case False
    with "1.prems" show ?thesis
      by (subst (asm) end_join_loop.simps) (auto split: if_splits)
  qed
qed

lemma end_post_loop_rc:
  "end_post_loop os i s = (Some rc, s') \<Longrightarrow> rc = 1"
proof (induction os i s rule: end_post_loop.induct)
  case (1 os i s)
  show ?case
  proof (cases "i < nthreads s \<and> sem_post_rc os i = 0")
    case True
    with "1.prems" "1.IH" show ?thesis
      by (subst (asm) end_post_loop.simps) simp
  next
    case False
    with "1.prems" show ?thesis
      by (subst (asm) end_post_loop.simps) (auto split: if_splits)
  qed
qed

lemma end_join_loop_rc:
  "end_join_loop os i s = Inr (Some rc, s') \<Longrightarrow> rc = 2"
proof (induction os i s rule: end_join_loop.induct)
  case (1 os i s)
  show ?case
  proof (cases "i < nthreads s \<and> \<not> (i < 0 \<or> MAX_THREADS \<le> i) \<and> pthread_join_rc os i = 0")
    case True
    with "1.prems" obtain u where u: "thread_exit (thread_list s i) s = Inr u"
      and l: "end_join_loop os (i + 1) u = Inr (Some rc, s')"
      by (subst (asm) end_join_loop.simps) (auto split: sum.splits)
    from True u l show ?thesis by (intro "1.IH") auto
  next
    case False
    with "1.prems" show ?thesis
      by (subst (asm) end_join_loop.simps) (auto split: if_splits)
  qed
qed

section \<open>Properties of the entry points\<close>

lemma alib_thread_init_started:
  "nthreads s \<noteq> 0 \<Longrightarrow>
   alib_thread_init os max_conc s = Some (Inr (- 1, s\<lparr>alib_thread_quit := 0\<rparr>))"
  by (simp add: alib_thread_init_def)

lemma alib_thread_init_sem_fails:
  "nthreads s = 0 \<Longrightarrow> sem_init_rc os \<noteq> 0 \<Longrightarrow>
   alib_thread_init os max_conc s = Some (Inr (- 1, s\<lparr>alib_thread_quit := 0\<rparr>))"
  by (simp add: alib_thread_init_def)

lemma alib_thread_init_success:
  assumes "alib_thread_init os max_conc s = Some (Inr (rc, s'))" and "0 \<le> rc"
  shows "rc = 0 \<and> nthreads s = 0 \<and> nthreads s' = max 0 max_conc \<and>
         threads s' = threads s @ replicate (nat max_conc) AtSemWait \<and>
         sem s' = Some 0 \<and> waiter s' = waiter s \<and> nfuncs s' = nfuncs s"
proof -
  let ?s1 = "s\<lparr>alib_thread_quit := 0, sem := Some 0, func_mutex := True,
                nrunning_mutex := True, idle_condition := True\<rparr>"
  from assms have ok: "nthreads s = 0" "sem_init_rc os = 0" "func_mutex_init_rc os = 0"
    "nrunning_mutex_init_rc os = 0" "cond_init_rc os = 0"
    by (auto simp: alib_thread_init_def Let_def split: if_splits)
  with assms(1) have c: "(case spawn_loop os 0 max_conc ?s1 of
           Inl f \<Rightarrow> Some (Inl f)
         | Inr (Some rc, s2) \<Rightarrow> Some (Inr (rc, s2))
         | Inr (None, s2) \<Rightarrow> map_option Inr (poll_loop os 0 s2)) = Some (Inr (rc, s'))"
    by (simp add: alib_thread_init_def Let_def)
  then obtain r s2 where sp: "spawn_loop os 0 max_conc ?s1 = Inr (r, s2)"
    by (cases "spawn_loop os 0 max_conc ?s1") auto
  show ?thesis
  proof (cases r)
    case None
    with c sp have p: "poll_loop os 0 s2 = Some (rc, s')" by auto
    from sp have f: "sem s2 = Some 0" "waiter s2 = waiter s" "nfuncs s2 = nfuncs s"
      using spawn_loop_frame [OF sp] by simp_all
    from poll_loop_result [OF p f(1)] assms(2) have "s' = s2" "rc = 0" by auto
    moreover from sp None ok have "nthreads s2 = max 0 max_conc"
      "threads s2 = threads s @ replicate (nat max_conc) AtSemWait"
      using spawn_loop_count [of os 0 max_conc ?s1 s2] by simp_all
    ultimately show ?thesis using f ok by simp
  next
    case (Some e)
    with c sp have "rc = e" by simp
    moreover from sp Some have "e = - 6" using spawn_loop_rc by blast
    ultimately show ?thesis using assms(2) by simp
  qed
qed

lemma alib_thread_init_nfuncs:
  assumes "alib_thread_init os max_conc s = Some (Inr (rc, s'))"
  shows "nfuncs s' = nfuncs s"
proof -
  let ?s1 = "s\<lparr>alib_thread_quit := 0, sem := Some 0, func_mutex := True,
                nrunning_mutex := True, idle_condition := True\<rparr>"
  show ?thesis
  proof (cases "nthreads s = 0 \<and> sem_init_rc os = 0 \<and> func_mutex_init_rc os = 0 \<and>
      nrunning_mutex_init_rc os = 0 \<and> cond_init_rc os = 0")
    case False
    with assms show ?thesis
      by (auto simp: alib_thread_init_def Let_def split: if_splits)
  next
    case True
    with assms have c: "(case spawn_loop os 0 max_conc ?s1 of
           Inl f \<Rightarrow> Some (Inl f)
         | Inr (Some rc, s2) \<Rightarrow> Some (Inr (rc, s2))
         | Inr (None, s2) \<Rightarrow> map_option Inr (poll_loop os 0 s2)) = Some (Inr (rc, s'))"
      by (simp add: alib_thread_init_def Let_def)
    then obtain r s2 where sp: "spawn_loop os 0 max_conc ?s1 = Inr (r, s2)"
      by (cases "spawn_loop os 0 max_conc ?s1") auto
    have f: "sem s2 = Some 0" "nfuncs s2 = nfuncs s"
      using spawn_loop_frame [OF sp] by simp_all
    show ?thesis
    proof (cases r)
      case None
      with c sp have "poll_loop os 0 s2 = Some (rc, s')" by auto
      from poll_loop_result [OF this f(1)] f show ?thesis by simp
    next
      case (Some e)
      with c sp f show ?thesis by simp
    qed
  qed
qed

lemma alib_thread_end_frame:
  assumes "alib_thread_end os s = Inr (rc, s')"
  shows "nthreads s' = nthreads s \<and> nfuncs s' \<le> nfuncs s \<and> func_mutex s' = func_mutex s \<and>
         alib_thread_quit s' = 1 \<and> thread_list s' = thread_list s \<and>
         func_list s' = func_list s \<and> arg_list s' = arg_list s"
proof -
  obtain r2 s2 where p: "end_post_loop os 0 (s\<lparr>alib_thread_quit := 1\<rparr>) = (r2, s2)"
    by (cases "end_post_loop os 0 (s\<lparr>alib_thread_quit := 1\<rparr>)") auto
  note f2 = end_post_loop_frame [OF p]
  show ?thesis
  proof (cases r2)
    case (Some e)
    with assms p have "s' = s2" by (simp add: alib_thread_end_def)
    with f2 show ?thesis by simp
  next
    case None
    with assms p obtain r3 s3 where j: "end_join_loop os 0 s2 = Inr (r3, s3)"
      by (cases "end_join_loop os 0 s2") (auto simp: alib_thread_end_def)
    note f3 = end_join_loop_frame [OF j]
    show ?thesis
    proof (cases r3)
      case (Some e)
      with assms p j None have "s' = s3" by (simp add: alib_thread_end_def)
      with f2 f3 show ?thesis by simp
    next
      case N3: None
      with assms p j None f2 f3 show ?thesis
        by (auto simp: alib_thread_end_def Let_def split: if_splits)
    qed
  qed
qed

lemma alib_thread_end_success:
  assumes "alib_thread_end os s = Inr (0, s')"
  shows "nrunning s' = 0 \<and> sem s' = None \<and> \<not> nrunning_mutex s' \<and> \<not> idle_condition s'"
proof -
  obtain r2 s2 where p: "end_post_loop os 0 (s\<lparr>alib_thread_quit := 1\<rparr>) = (r2, s2)"
    by (cases "end_post_loop os 0 (s\<lparr>alib_thread_quit := 1\<rparr>)") auto
  show ?thesis
  proof (cases r2)
    case (Some e)
    then have "e = 1" using p end_post_loop_rc by blast
    with Some assms p show ?thesis by (simp add: alib_thread_end_def)
  next
    case None
    with assms p obtain r3 s3 where j: "end_join_loop os 0 s2 = Inr (r3, s3)"
      by (cases "end_join_loop os 0 s2") (auto simp: alib_thread_end_def)
    show ?thesis
    proof (cases r3)
      case (Some e)
      then have "e = 2" using j end_join_loop_rc by blast
      with Some assms p j None show ?thesis by (simp add: alib_thread_end_def)
    next
      case N3: None
      with assms p j None show ?thesis
        by (auto simp: alib_thread_end_def Let_def split: if_splits)
    qed
  qed
qed

section \<open>Concrete runs\<close>

lemma eval_init1: "alib_thread_init os_ok 1 initial_state = Some (Inr (0, pool_init1))"
  by (simp add: alib_thread_init_def spawn_loop.simps poll_loop.simps sem_getvalue_def
      os_ok_def initial_state_def pool_init1_def MAX_THREADS_def)

lemma eval_go1: "alib_go os_ok 5 6 pool_init1 = Inr (0, pool_go1)"
  by (simp add: alib_go_def sem_post_def os_ok_def pool_init1_def pool_go1_def MAX_THREADS_def)

lemma eval_go2: "alib_go os_ok 5 6 pool_go1 = Inr (0, pool_go2)"
  by (simp add: alib_go_def sem_post_def os_ok_def pool_go1_def pool_go2_def MAX_THREADS_def)

lemma eval_end1: "alib_thread_end os_ok pool_init1 = Inr (0, pool_end1)"
  by (simp add: alib_thread_end_def end_post_loop.simps end_join_loop.simps sem_post_def
      thread_exit_def thread_idle_step_def eval_nat_numeral os_ok_def pool_init1_def
      pool_end1_def MAX_THREADS_def)

section \<open>The pending stack\<close>

lemma alib_go_test_push:
  "alib_go os func arg s =
     (case alib_go_test s of Some rc \<Rightarrow> Inr (rc, s) | None \<Rightarrow> alib_go_push os func arg s)"
  by (simp add: alib_go_def alib_go_test_def alib_go_push_def)

text \<open>
  Two calls of \<open>alib_go\<close> that overlap. Both make their tests in a state with
  \<open>MAX_THREADS - 1\<close> entries pending, and both pass. The first then pushes; the second
  pushes after it, at index \<open>MAX_THREADS\<close>, outside the arrays.
\<close>

lemma alib_go_overlapping_calls:
  assumes "nthreads s \<noteq> 0" and "nfuncs s = MAX_THREADS - 1" and "sem_post_rc os 0 = 0"
  shows "alib_go_test s = None \<and>
         (\<exists>s1. alib_go_push os func arg s = Inr (0, s1) \<and> nfuncs s1 = MAX_THREADS \<and>
                alib_go_push os' func' arg' s1 = Inl OutOfBounds)"
  using assms
  by (simp add: alib_go_test_def alib_go_push_def sem_post_def MAX_THREADS_def)

lemma alib_go_nfuncs_le:
  "alib_go os func arg s = Inr (rc, s') \<Longrightarrow> nfuncs s \<le> MAX_THREADS \<Longrightarrow>
   nfuncs s' \<le> MAX_THREADS"
  by (auto simp: alib_go_def Let_def sem_post_def split: if_splits)

lemma serially_reachable_nfuncs: "serially_reachable s \<Longrightarrow> nfuncs s \<le> MAX_THREADS"
proof (induction rule: serially_reachable.induct)
  case start
  show ?case by (simp add: initial_state_def MAX_THREADS_def)
next
  case (init s os max_conc rc s')
  then show ?case using alib_thread_init_nfuncs by simp
next
  case (go s os func arg rc s')
  then show ?case using alib_go_nfuncs_le by blast
next
  case (finish s os rc s')
  then show ?case using alib_thread_end_frame by fastforce
next
  case (work s t s')
  then show ?case using thread_idle_step_nfuncs by fastforce
qed

text \<open>A full stack is reached by \<open>MAX_THREADS\<close> calls of \<open>alib_go\<close> in a pool of one worker.\<close>

lemma pool_pending_0: "pool_pending 0 = pool_init1"
  by (auto simp: pool_pending_def pool_init1_def fun_eq_iff)

lemma alib_go_pool_pending:
  "int k < MAX_THREADS \<Longrightarrow> alib_go os_ok 5 6 (pool_pending k) = Inr (0, pool_pending (Suc k))"
  by (auto simp: alib_go_def sem_post_def os_ok_def pool_pending_def MAX_THREADS_def fun_eq_iff)

lemma serially_reachable_pool_pending:
  "int k \<le> MAX_THREADS \<Longrightarrow> serially_reachable (pool_pending k)"
proof (induction k)
  case 0
  have "serially_reachable pool_init1"
    using serially_reachable.start eval_init1 by (rule serially_reachable.init)
  then show ?case by (simp add: pool_pending_0)
next
  case (Suc k)
  then have "serially_reachable (pool_pending k)" "int k < MAX_THREADS" by simp_all
  then show ?case
    using alib_go_pool_pending by (blast intro: serially_reachable.go)
qed

section \<open>The claims\<close>

text \<open>
  Claim C1 says that \<open>alib_thread_wait\<close>, called right after a successful
  \<open>alib_thread_init(N)\<close> with nothing submitted, returns. The code does not: the
  function waits on the condition variable without looking at \<open>nrunning\<close>, every
  worker is blocked in \<open>sem_wait\<close> on a semaphore of value 0, so no worker ever reaches
  the \<open>pthread_cond_signal\<close> of line 107 and the caller stays blocked. The theorem:
  after any successful initialisation at program start, in no run of the workers does
  \<open>alib_thread_wait\<close> return.
\<close>

theorem alib_thread_wait_after_init_blocks:
  "alib_thread_init os max_conc initial_state = Some (Inr (0, s)) \<Longrightarrow>
   \<not> (\<exists>r. alib_thread_wait s r)"
proof
  assume init: "alib_thread_init os max_conc initial_state = Some (Inr (0, s))"
  assume "\<exists>r. alib_thread_wait s r"
  then obtain r s' where run: "step\<^sup>*\<^sup>* (alib_thread_wait_call s) s'"
    and ret: "alib_thread_wait_return s' = Some r"
    by (auto elim: alib_thread_wait.cases)
  from alib_thread_init_success [OF init]
  have "sem s = Some 0" "threads s = replicate (nat max_conc) AtSemWait"
    by (simp_all add: initial_state_def)
  then have "thread_idle_step (alib_thread_wait_call s) t = None" for t
    by (intro blocked_worker) (simp_all add: alib_thread_wait_call_def)
  then have "\<not> step (alib_thread_wait_call s) u" for u
    by (auto elim: step.cases)
  with run have "s' = alib_thread_wait_call s" by (rule no_step_rtranclp)
  with ret show False
    by (simp add: alib_thread_wait_return_def alib_thread_wait_call_def)
qed

theorem alib_thread_wait_after_init_blocks_witness:
  "alib_thread_init os_ok 1 initial_state = Some (Inr (0, pool_init1)) \<and>
   \<not> (\<exists>r. alib_thread_wait pool_init1 r)"
  using alib_thread_wait_after_init_blocks [OF eval_init1] eval_init1 by simp

text \<open>
  Claim C2 says that after a successful \<open>alib_thread_end\<close> every \<open>alib_go\<close> fails with
  the not-initialised code 1 and an \<open>alib_thread_init\<close> succeeds. The code does
  neither: \<open>alib_thread_end\<close> never resets \<open>nthreads\<close>, which is what both functions
  test. The theorem: after a successful shutdown of a pool that had workers, no
  \<open>alib_go\<close> returns 1 and every \<open>alib_thread_init\<close> returns -1.
\<close>

theorem alib_thread_end_not_restartable:
  "alib_thread_end os s = Inr (0, s') \<Longrightarrow> nthreads s \<noteq> 0 \<Longrightarrow>
   (\<forall>os' func arg s''. alib_go os' func arg s' \<noteq> Inr (1, s'')) \<and>
   (\<forall>os' max_conc.
      alib_thread_init os' max_conc s' = Some (Inr (- 1, s'\<lparr>alib_thread_quit := 0\<rparr>)))"
proof -
  assume e: "alib_thread_end os s = Inr (0, s')" and n: "nthreads s \<noteq> 0"
  from alib_thread_end_frame [OF e] n have n': "nthreads s' \<noteq> 0" by simp
  then have "alib_go os' func arg s' \<noteq> Inr (1, s'')" for os' func arg s''
    by (auto simp: alib_go_def Let_def)
  moreover from n' have
    "alib_thread_init os' max_conc s' = Some (Inr (- 1, s'\<lparr>alib_thread_quit := 0\<rparr>))"
    for os' max_conc
    by (rule alib_thread_init_started)
  ultimately show ?thesis by blast
qed

theorem alib_thread_end_not_restartable_witness:
  "alib_thread_end os_ok pool_init1 = Inr (0, pool_end1) \<and> nthreads pool_init1 \<noteq> 0 \<and>
   alib_go os_ok 5 6 pool_end1 \<noteq> Inr (1, pool_end1) \<and>
   alib_thread_init os_ok 1 pool_end1 = Some (Inr (- 1, pool_end1\<lparr>alib_thread_quit := 0\<rparr>))"
proof -
  have n: "nthreads pool_init1 \<noteq> 0" by (simp add: pool_init1_def)
  from alib_thread_end_not_restartable [OF eval_end1 n] eval_end1 n show ?thesis by blast
qed

text \<open>
  Claim C3 says that \<open>alib_go\<close> fails with the saturation code 2 exactly when the
  pending stack holds as many entries as the \<open>max_conc\<close> given to
  \<open>alib_thread_init\<close>, so that the stack never holds more than that. The code
  compares \<open>nfuncs\<close> with the constant \<open>MAX_THREADS\<close>, the size of the arrays, and
  keeps no record of \<open>max_conc\<close>. As amended: \<open>alib_go\<close> returns 2 exactly when the
  pool has workers and the stack holds \<open>MAX_THREADS\<close> entries; and as long as the
  calls of the entry points do not overlap one another, the pending stack never holds
  more than \<open>MAX_THREADS\<close> entries. (Calls of \<open>alib_go\<close> that overlap are outside
  this statement: \<open>alib_go_overlapping_calls\<close> shows what two of them can do.)
\<close>

theorem alib_go_saturated_at_MAX_THREADS:
  "(serially_reachable s \<longrightarrow> nfuncs s \<le> MAX_THREADS) \<and>
   ((\<exists>s'. alib_go os func arg s = Inr (2, s')) \<longleftrightarrow>
      nthreads s \<noteq> 0 \<and> nfuncs s = MAX_THREADS)"
  using serially_reachable_nfuncs by (auto simp: alib_go_def Let_def split: if_splits)

theorem alib_go_saturated_at_MAX_THREADS_witness:
  "serially_reachable (pool_pending 1024) \<and> nfuncs (pool_pending 1024) \<le> MAX_THREADS \<and>
   nthreads (pool_pending 1024) \<noteq> 0 \<and> nfuncs (pool_pending 1024) = MAX_THREADS \<and>
   (\<exists>s'. alib_go os_ok 5 6 (pool_pending 1024) = Inr (2, s'))"
proof -
  have r: "serially_reachable (pool_pending 1024)"
    by (rule serially_reachable_pool_pending) (simp add: MAX_THREADS_def)
  have n: "nthreads (pool_pending 1024) \<noteq> 0" "nfuncs (pool_pending 1024) = MAX_THREADS"
    by (simp_all add: pool_pending_def MAX_THREADS_def)
  from alib_go_saturated_at_MAX_THREADS [of "pool_pending 1024" os_ok 5 6] r n
  show ?thesis by simp
qed

text \<open>
  The claim as stated fails for a pool of one worker: with one entry pending, which is
  \<open>max_conc\<close> entries, a second \<open>alib_go\<close> returns 0 and the stack holds two.
\<close>

theorem alib_go_not_saturated_at_max_conc:
  "alib_thread_init os_ok 1 initial_state = Some (Inr (0, pool_init1)) \<and>
   alib_go os_ok 5 6 pool_init1 = Inr (0, pool_go1) \<and>
   nfuncs pool_go1 = 1 \<and>
   alib_go os_ok 5 6 pool_go1 = Inr (0, pool_go2) \<and>
   nfuncs pool_go2 = 2"
  using eval_init1 eval_go1 eval_go2 by (simp add: pool_go1_def pool_go2_def)

text \<open>
  Claim C4 says that a successful \<open>alib_thread_init(max_conc)\<close> returns the number of
  workers created, and the function's own comment says so (line 116). The code ends
  in \<open>return 0\<close> (line 160). The theorem: whenever the function returns a code
  that is not negative, the code is 0, while \<open>max_conc\<close> workers (none when
  \<open>max_conc\<close> is negative) have been created and counted in \<open>nthreads\<close>.
\<close>

theorem alib_thread_init_success_returns_zero:
  "alib_thread_init os max_conc s = Some (Inr (rc, s')) \<Longrightarrow> 0 \<le> rc \<Longrightarrow>
   rc = 0 \<and> nthreads s' = max 0 max_conc \<and>
   threads s' = threads s @ replicate (nat max_conc) AtSemWait"
  using alib_thread_init_success by blast

theorem alib_thread_init_success_returns_zero_witness:
  "alib_thread_init os_ok 1 initial_state = Some (Inr (0, pool_init1)) \<and>
   nthreads pool_init1 = 1 \<and> threads pool_init1 = [AtSemWait]"
  using alib_thread_init_success_returns_zero [OF eval_init1] eval_init1
  by (simp add: initial_state_def)

text \<open>
  Claim C5 says that \<open>alib_thread_init\<close> on a pool already started fails with a code
  that no failed creation of a resource returns, and changes nothing. The code
  returns -1 both when the pool is started (line 131) and when \<open>sem_init\<close> fails
  (line 134), and it has cleared \<open>alib_thread_quit\<close> (line 128) before it tests
  \<open>nthreads\<close>. The theorem: both calls return -1, each in the state it was given
  with \<open>alib_thread_quit\<close> set to 0.
\<close>

theorem alib_thread_init_started_same_code:
  "nthreads s \<noteq> 0 \<Longrightarrow> nthreads s0 = 0 \<Longrightarrow> sem_init_rc os0 \<noteq> 0 \<Longrightarrow>
   alib_thread_init os max_conc s = Some (Inr (- 1, s\<lparr>alib_thread_quit := 0\<rparr>)) \<and>
   alib_thread_init os0 max_conc0 s0 = Some (Inr (- 1, s0\<lparr>alib_thread_quit := 0\<rparr>))"
  by (simp add: alib_thread_init_started alib_thread_init_sem_fails)

theorem alib_thread_init_started_same_code_witness:
  "alib_thread_init os_ok 1 pool_init1 = Some (Inr (- 1, pool_init1)) \<and>
   alib_thread_init (os_ok\<lparr>sem_init_rc := 1\<rparr>) 1 initial_state =
     Some (Inr (- 1, initial_state))"
proof -
  have a: "nthreads pool_init1 \<noteq> 0" "nthreads initial_state = 0"
    "sem_init_rc (os_ok\<lparr>sem_init_rc := 1\<rparr>) \<noteq> 0"
    by (simp_all add: pool_init1_def initial_state_def)
  have b: "pool_init1\<lparr>alib_thread_quit := 0\<rparr> = pool_init1"
    "initial_state\<lparr>alib_thread_quit := 0\<rparr> = initial_state"
    by (simp_all add: pool_init1_def initial_state_def)
  from alib_thread_init_started_same_code [OF a, of os_ok 1 1] b show ?thesis by simp
qed

text \<open>
  Claim C6: when \<open>alib_go\<close> returns 0, \<open>nrunning\<close> has already been incremented; the
  increment is made by \<open>alib_go\<close> itself and not by the worker that later runs the
  function. The theorem: in the state \<open>alib_go\<close> returns with code 0, \<open>nrunning\<close> is
  one more than before the call, and no step of any worker from that state raises it.
\<close>

theorem alib_go_increments_nrunning:
  "alib_go os func arg s = Inr (0, s') \<Longrightarrow>
   nrunning s' = nrunning s + 1 \<and>
   (\<forall>t u. thread_idle_step s' t = Some (Inr u) \<longrightarrow> nrunning u \<le> nrunning s')"
  using thread_idle_step_nrunning
  by (auto simp: alib_go_def Let_def sem_post_def split: if_splits)

theorem alib_go_increments_nrunning_witness:
  "alib_go os_ok 5 6 pool_init1 = Inr (0, pool_go1) \<and>
   nrunning pool_init1 = 0 \<and> nrunning pool_go1 = 1 \<and>
   thread_idle_step pool_go1 0 =
     Some (Inr (pool_go1\<lparr>sem := Some 0, threads := [AtQuitCheck]\<rparr>)) \<and>
   nrunning (pool_go1\<lparr>sem := Some 0, threads := [AtQuitCheck]\<rparr>) \<le> nrunning pool_go1"
proof -
  have st: "thread_idle_step pool_go1 0 =
     Some (Inr (pool_go1\<lparr>sem := Some 0, threads := [AtQuitCheck]\<rparr>))"
    by (simp add: thread_idle_step_def pool_go1_def)
  from alib_go_increments_nrunning [OF eval_go1] st eval_go1 show ?thesis
    by (simp add: pool_init1_def)
qed

text \<open>
  Claim C7 says that a successful \<open>alib_thread_end\<close> resets \<open>nrunning\<close> and releases
  the semaphore, both mutexes and the condition variable. The code destroys the
  semaphore, \<open>nrunning_mutex\<close> and \<open>idle_condition\<close> (lines 198-200) and has no
  \<open>pthread_mutex_destroy\<close> for \<open>func_mutex\<close>, which \<open>alib_thread_init\<close> created.
  The theorem: after a successful call \<open>nrunning\<close> is 0 and those three objects are
  gone, while \<open>func_mutex\<close> is as it was before the call.
\<close>

theorem alib_thread_end_keeps_func_mutex:
  "alib_thread_end os s = Inr (0, s') \<Longrightarrow>
   nrunning s' = 0 \<and> sem s' = None \<and> \<not> nrunning_mutex s' \<and> \<not> idle_condition s' \<and>
   func_mutex s' = func_mutex s"
  using alib_thread_end_success alib_thread_end_frame by blast

theorem alib_thread_end_keeps_func_mutex_witness:
  "alib_thread_end os_ok pool_init1 = Inr (0, pool_end1) \<and> func_mutex pool_init1 \<and>
   func_mutex pool_end1 \<and> sem pool_end1 = None \<and> \<not> nrunning_mutex pool_end1 \<and>
   \<not> idle_condition pool_end1 \<and> nrunning pool_end1 = 0"
  using alib_thread_end_keeps_func_mutex [OF eval_end1] eval_end1
  by (simp add: pool_init1_def)

text \<open>
  Claim C8: \<open>alib_thread_init\<close> does not compare \<open>max_conc\<close> with \<open>MAX_THREADS\<close>;
  for every \<open>max_conc\<close> above \<open>MAX_THREADS\<close> the worker-creation loop indexes
  \<open>thread_list\<close> outside its bounds. The theorem: for every such \<open>max_conc\<close>, when
  the loop is reached (the pool is not started and the four objects are created) and
  the workers for the slots of the array are created, the call ends in an access
  outside the array.
\<close>

theorem alib_thread_init_out_of_bounds:
  "MAX_THREADS < max_conc \<Longrightarrow> nthreads s = 0 \<Longrightarrow> sem_init_rc os = 0 \<Longrightarrow>
   func_mutex_init_rc os = 0 \<Longrightarrow> nrunning_mutex_init_rc os = 0 \<Longrightarrow> cond_init_rc os = 0 \<Longrightarrow>
   (\<forall>i. 0 \<le> i \<and> i < MAX_THREADS \<longrightarrow> pthread_create_rc os i = 0) \<Longrightarrow>
   alib_thread_init os max_conc s = Some (Inl OutOfBounds)"
proof -
  assume a: "MAX_THREADS < max_conc" "nthreads s = 0" "sem_init_rc os = 0"
    "func_mutex_init_rc os = 0" "nrunning_mutex_init_rc os = 0" "cond_init_rc os = 0"
    and c: "\<forall>i. 0 \<le> i \<and> i < MAX_THREADS \<longrightarrow> pthread_create_rc os i = 0"
  have "spawn_loop os 0 max_conc
          (s\<lparr>alib_thread_quit := 0, sem := Some 0, func_mutex := True,
             nrunning_mutex := True, idle_condition := True\<rparr>) = Inl OutOfBounds"
    using a(1) c by (intro spawn_loop_overflow) (simp_all add: MAX_THREADS_def)
  with a show ?thesis by (simp add: alib_thread_init_def)
qed

theorem alib_thread_init_out_of_bounds_witness:
  "MAX_THREADS < 1025 \<and> nthreads initial_state = 0 \<and>
   alib_thread_init os_ok 1025 initial_state = Some (Inl OutOfBounds)"
proof -
  have a: "MAX_THREADS < 1025" "nthreads initial_state = 0" "sem_init_rc os_ok = 0"
    "func_mutex_init_rc os_ok = 0" "nrunning_mutex_init_rc os_ok = 0" "cond_init_rc os_ok = 0"
    "\<forall>i. 0 \<le> i \<and> i < MAX_THREADS \<longrightarrow> pthread_create_rc os_ok i = 0"
    by (simp_all add: MAX_THREADS_def initial_state_def os_ok_def)
  from alib_thread_init_out_of_bounds [OF a] a show ?thesis by simp
qed

text \<open>
  Claim C9: \<open>alib_thread_init(0)\<close> returns 0 and creates no worker, and the pool then
  behaves as one that was never started: every later \<open>alib_go\<close> returns 1. The
  theorem: on a pool that is not started, with the four objects created and
  \<open>sem_getvalue\<close> succeeding, the call returns 0 in a state with the same threads as
  before and \<open>nthreads\<close> 0, in which every \<open>alib_go\<close> returns 1 and leaves the state
  as it is (so the same holds after it).
\<close>

theorem alib_thread_init_zero:
  "nthreads s = 0 \<Longrightarrow> sem_init_rc os = 0 \<Longrightarrow> func_mutex_init_rc os = 0 \<Longrightarrow>
   nrunning_mutex_init_rc os = 0 \<Longrightarrow> cond_init_rc os = 0 \<Longrightarrow> sem_getvalue_rc os 0 = 0 \<Longrightarrow>
   (\<exists>s'. alib_thread_init os 0 s = Some (Inr (0, s')) \<and> threads s' = threads s \<and>
         nthreads s' = 0 \<and> (\<forall>os' func arg. alib_go os' func arg s' = Inr (1, s')))"
  by (simp add: alib_thread_init_def spawn_loop.simps poll_loop_zero alib_go_def)

theorem alib_thread_init_zero_witness:
  "nthreads initial_state = 0 \<and>
   (\<exists>s'. alib_thread_init os_ok 0 initial_state = Some (Inr (0, s')) \<and>
         threads s' = [] \<and> nthreads s' = 0 \<and> alib_go os_ok 5 6 s' = Inr (1, s'))"
proof -
  have a: "nthreads initial_state = 0" "sem_init_rc os_ok = 0"
    "func_mutex_init_rc os_ok = 0" "nrunning_mutex_init_rc os_ok = 0" "cond_init_rc os_ok = 0"
    "sem_getvalue_rc os_ok 0 = 0"
    by (simp_all add: initial_state_def os_ok_def)
  have "threads initial_state = []" by (simp add: initial_state_def)
  with alib_thread_init_zero [OF a] a(1) show ?thesis by auto
qed

text \<open>
  Claim C10: a successful \<open>alib_go(func, arg)\<close> changes only the pending slot at the
  old top of the stack (set to \<open>func\<close> and \<open>arg\<close>), the pending count (one more),
  the running count (one more) and the semaphore (posted once); the worker handles,
  the worker count, the quit flag and every other slot stay as they were. The theorem
  gives the state after the call as the state before it with exactly those updates.
\<close>

theorem alib_go_frame:
  "alib_go os func arg s = Inr (0, s') \<Longrightarrow>
   s' = s\<lparr>func_list := (func_list s)(nfuncs s := func),
          arg_list := (arg_list s)(nfuncs s := arg),
          nfuncs := nfuncs s + 1,
          nrunning := nrunning s + 1,
          sem := map_option Suc (sem s)\<rparr>"
  by (auto simp: alib_go_def Let_def sem_post_def split: if_splits)

theorem alib_go_frame_witness:
  "alib_go os_ok 5 6 pool_init1 = Inr (0, pool_go1) \<and>
   pool_go1 = pool_init1\<lparr>func_list := (func_list pool_init1)(0 := 5),
          arg_list := (arg_list pool_init1)(0 := 6),
          nfuncs := 1, nrunning := 1, sem := Some 1\<rparr>"
  using alib_go_frame [OF eval_go1] eval_go1 by (simp add: pool_init1_def)

end
